theory Spec2Isabelle
  imports Complex_Main "HOL-Library.Char_ord"
begin

section \<open>Open Video Annotator: the annotation workflow of \<^verbatim>\<open>App.tsx\<close> and \<^verbatim>\<open>AnnotationPanel\<close>\<close>

text \<open>
  The React components keep their state in \<^verbatim>\<open>useState\<close> cells and change it in event
  handlers. Each component's cells form a record, and each handler is a function from the
  state before the event to the state after it. Events are handled one at a time, so a
  handler sees the cells of the render in which it was created.

  A JavaScript string is modelled as a \<^typ>\<open>string\<close>: the list of its code units, for
  code units below 256. A JavaScript number is a \<^typ>\<open>real\<close> (no handler computes with
  one; they are stored and copied). The value of \<^verbatim>\<open>Date.now()\<close> is an argument of the
  handlers that read the clock.
\<close>

subsection \<open>Strings: whitespace, \<^verbatim>\<open>trim\<close>, \<^verbatim>\<open>Number.prototype.toString\<close>\<close>

text \<open>The class \<^verbatim>\<open>\s\<close> of a regular expression, which is also what \<^verbatim>\<open>trim()\<close> strips:
  TAB, LF, VT, FF, CR, SPACE and NBSP (the members below code unit 256).\<close>

definition is_space :: "char \<Rightarrow> bool" where
  "is_space c \<longleftrightarrow> c \<in> set [CHR 0x09, CHR 0x0A, CHR 0x0B, CHR 0x0C, CHR 0x0D, CHR 0x20, CHR 0xA0]"

definition trim :: "string \<Rightarrow> string" where
  "trim s = rev (dropWhile is_space (rev (dropWhile is_space s)))"

text \<open>The class \<^verbatim>\<open>\d\<close>.\<close>

definition is_digit :: "char \<Rightarrow> bool" where
  "is_digit c \<longleftrightarrow> CHR ''0'' \<le> c \<and> c \<le> CHR ''9''"

definition digit_char :: "nat \<Rightarrow> char" where
  "digit_char d = ''0123456789'' ! d"

function show_nat :: "nat \<Rightarrow> string" where
  "show_nat n = (if n < 10 then [digit_char n] else show_nat (n div 10) @ [digit_char (n mod 10)])"
  by pat_completeness auto
termination
  by (relation "measure (\<lambda>n. n)") auto

declare show_nat.simps [simp del]

text \<open>\<^verbatim>\<open>Date.now().toString()\<close>: the clock is an integer number of milliseconds, printed
  in decimal, with a minus sign before the epoch.\<close>

definition number_toString :: "int \<Rightarrow> string" where
  "number_toString i = (if i < 0 then CHR ''-'' # show_nat (nat (- i)) else show_nat (nat i))"

subsection \<open>The data model (\<^verbatim>\<open>interface Annotation\<close>)\<close>

datatype annotation_type = VLM | LLM

text \<open>The edit form holds the four editable fields; \<^verbatim>\<open>Omit<Annotation, 'id'>\<close> adds the
  timestamp, and \<^verbatim>\<open>Annotation\<close> adds the id.\<close>

record edit_form =
  type :: annotation_type
  question :: string
  requirements :: string
  feedbackDuration :: real

record annotation_no_id = edit_form +
  timestamp :: real

record annotation = annotation_no_id +
  id_ann :: string

datatype video_type = Youtube | Direct

record app_state =
  videoUrl :: string
  inputUrl :: string
  currentTime :: real
  isPaused :: bool
  isAnnotating :: bool
  annotations :: "annotation list"
  videoType :: video_type
  youtubeVideoId :: string
  videoFileName :: string
  subtitleUrl :: string
  subtitleFileName :: string

text \<open>The initial values of the \<^verbatim>\<open>useState\<close> cells of \<^verbatim>\<open>App\<close>.\<close>

definition initial_app :: app_state where
  "initial_app = \<lparr>videoUrl = '''', inputUrl = '''', currentTime = 0, isPaused = True,
     isAnnotating = False, annotations = [], videoType = Direct, youtubeVideoId = '''',
     videoFileName = '''', subtitleUrl = '''', subtitleFileName = ''''\<rparr>"

record panel_state =
  annotationType :: annotation_type
  annotationQuestion :: string
  annotationRequirements :: string
  feedbackDuration_state :: real
  editingId :: "string option"
  editForm :: "edit_form option"

definition initial_panel :: panel_state where
  "initial_panel = \<lparr>annotationType = VLM, annotationQuestion = '''',
     annotationRequirements = '''', feedbackDuration_state = 6, editingId = None,
     editForm = None\<rparr>"

subsection \<open>\<^verbatim>\<open>extractYouTubeVideoId\<close>\<close>

text \<open>The first pattern,
  \<^verbatim>\<open>/(?:youtube\.com\/watch\?v=|youtu\.be\/|youtube\.com\/embed\/)([^&\s?]+)/\<close>,
  is searched for from the left; at each position the alternatives are tried in order, and
  the group takes the longest run of characters of its class, at least one.\<close>

definition video_id_markers :: "string list" where
  "video_id_markers = [''youtube.com/watch?v='', ''youtu.be/'', ''youtube.com/embed/'']"

definition id_run_char :: "char \<Rightarrow> bool" where
  "id_run_char c \<longleftrightarrow> \<not> (c = CHR ''&'' \<or> is_space c \<or> c = CHR ''?'')"

fun strip_prefix :: "string \<Rightarrow> string \<Rightarrow> string option" where
  "strip_prefix [] s = Some s"
| "strip_prefix (p # ps) [] = None"
| "strip_prefix (p # ps) (c # cs) = (if p = c then strip_prefix ps cs else None)"

fun match_alternatives :: "string list \<Rightarrow> string \<Rightarrow> string option" where
  "match_alternatives [] s = None"
| "match_alternatives (m # ms) s =
     (case strip_prefix m s of
        None \<Rightarrow> match_alternatives ms s
      | Some rest \<Rightarrow>
          (let g = takeWhile id_run_char rest
           in if g \<noteq> [] then Some g else match_alternatives ms s))"

fun match_marker :: "string \<Rightarrow> string option" where
  "match_marker [] = match_alternatives video_id_markers []"
| "match_marker (c # cs) =
     (case match_alternatives video_id_markers (c # cs) of
        Some g \<Rightarrow> Some g
      | None \<Rightarrow> match_marker cs)"

text \<open>The second pattern, \<^verbatim>\<open>/^([a-zA-Z0-9_-]{11})$/\<close>, has to match the whole string.\<close>

definition bare_id_char :: "char \<Rightarrow> bool" where
  "bare_id_char c \<longleftrightarrow>
     (CHR ''a'' \<le> c \<and> c \<le> CHR ''z'') \<or> (CHR ''A'' \<le> c \<and> c \<le> CHR ''Z'') \<or>
     (CHR ''0'' \<le> c \<and> c \<le> CHR ''9'') \<or> c = CHR ''_'' \<or> c = CHR ''-''"

definition match_bare_id :: "string \<Rightarrow> string option" where
  "match_bare_id url = (if length url = 11 \<and> list_all bare_id_char url then Some url else None)"

text \<open>The loop over the patterns returns the first group that matched and is not empty.\<close>

fun first_group :: "(string \<Rightarrow> string option) list \<Rightarrow> string \<Rightarrow> string option" where
  "first_group [] url = None"
| "first_group (pattern # patterns) url =
     (case pattern url of
        Some g \<Rightarrow> if g \<noteq> [] then Some g else first_group patterns url
      | None \<Rightarrow> first_group patterns url)"

definition extractYouTubeVideoId :: "string \<Rightarrow> string option" where
  "extractYouTubeVideoId url = first_group [match_marker, match_bare_id] url"

subsection \<open>Loading a source: \<^verbatim>\<open>handleLoadVideo\<close>, \<^verbatim>\<open>handleFileUpload\<close>\<close>

text \<open>\<^verbatim>\<open>inputUrl.split('/').pop() || ''\<close>: the part after the last slash.\<close>

definition last_segment :: "string \<Rightarrow> string" where
  "last_segment s = rev (takeWhile (\<lambda>c. c \<noteq> CHR ''/'') (rev s))"

definition handleLoadVideo :: "app_state \<Rightarrow> app_state" where
  "handleLoadVideo s =
     (if trim (inputUrl s) \<noteq> [] then
        (let s1 =
           (case extractYouTubeVideoId (inputUrl s) of
              Some youtubeId \<Rightarrow>
                if youtubeId \<noteq> [] then
                  s\<lparr>videoType := Youtube, youtubeVideoId := youtubeId, videoUrl := inputUrl s,
                    videoFileName := ''''\<rparr>
                else
                  s\<lparr>videoType := Direct, videoUrl := inputUrl s,
                    videoFileName := last_segment (inputUrl s)\<rparr>
            | None \<Rightarrow>
                s\<lparr>videoType := Direct, videoUrl := inputUrl s,
                  videoFileName := last_segment (inputUrl s)\<rparr>)
         in s1\<lparr>annotations := [], isPaused := True\<rparr>)
      else s)"

text \<open>The event carries the chosen file, if any; \<^verbatim>\<open>URL.createObjectURL\<close> belongs to the
  browser and is an argument.\<close>

record upload_file =
  name :: string

definition handleFileUpload :: "(upload_file \<Rightarrow> string) \<Rightarrow> upload_file option \<Rightarrow> app_state \<Rightarrow> app_state" where
  "handleFileUpload createObjectURL files0 s =
     (case files0 of
        Some f \<Rightarrow>
          s\<lparr>videoType := Direct, videoUrl := createObjectURL f, videoFileName := name f,
            inputUrl := '''', annotations := [], isPaused := True\<rparr>
      | None \<Rightarrow> s)"

subsection \<open>The annotation session: \<^verbatim>\<open>handleStartAnnotation\<close>, \<^verbatim>\<open>handleDoneAnnotation\<close>, \<^verbatim>\<open>handleDone\<close>\<close>

definition handleStartAnnotation :: "app_state \<Rightarrow> app_state" where
  "handleStartAnnotation s = s\<lparr>isAnnotating := True, isPaused := True\<rparr>"

text \<open>\<^verbatim>\<open>manualTimestamp ?? currentTime\<close>: the optional argument wins when it is given.\<close>

definition handleDoneAnnotation ::
  "int \<Rightarrow> annotation_type \<Rightarrow> string \<Rightarrow> string \<Rightarrow> real \<Rightarrow> real option \<Rightarrow> app_state \<Rightarrow> app_state" where
  "handleDoneAnnotation now ty q r fd manualTimestamp s =
     (let newAnnotation =
        \<lparr>type = ty, question = q, requirements = r, feedbackDuration = fd,
          timestamp = (case manualTimestamp of Some t \<Rightarrow> t | None \<Rightarrow> currentTime s),
          id_ann = number_toString now\<rparr>
      in s\<lparr>annotations := annotations s @ [newAnnotation], isAnnotating := False,
           isPaused := False\<rparr>)"

text \<open>The panel is rendered with the cells of \<^verbatim>\<open>App\<close> as its properties: \<^verbatim>\<open>currentTime\<close>
  is always passed, and \<^verbatim>\<open>onDoneAnnotation\<close>, \<^verbatim>\<open>onDeleteAnnotation\<close> and
  \<^verbatim>\<open>onUpdateAnnotation\<close> are the handlers of \<^verbatim>\<open>App\<close>. A handler of the panel works on
  the pair of both states.\<close>

definition handleDone :: "int \<Rightarrow> app_state \<times> panel_state \<Rightarrow> app_state \<times> panel_state" where
  "handleDone now sp =
     (case sp of (s, p) \<Rightarrow>
        if trim (annotationQuestion p) \<noteq> [] then
          (handleDoneAnnotation now (annotationType p) (annotationQuestion p)
             (annotationRequirements p) (feedbackDuration_state p) (Some (currentTime s)) s,
           p\<lparr>annotationQuestion := '''', annotationRequirements := '''',
             feedbackDuration_state := 6\<rparr>)
        else (s, p))"

subsection \<open>The collection: \<^verbatim>\<open>handleDeleteAnnotation\<close>, \<^verbatim>\<open>handleUpdateAnnotation\<close>, the edit workflow\<close>

definition handleDeleteAnnotation :: "string \<Rightarrow> app_state \<Rightarrow> app_state" where
  "handleDeleteAnnotation i s = s\<lparr>annotations := filter (\<lambda>ann. id_ann ann \<noteq> i) (annotations s)\<rparr>"

text \<open>\<^verbatim>\<open>{ ...updatedAnnotation, id }\<close>\<close>

definition with_id :: "annotation_no_id \<Rightarrow> string \<Rightarrow> annotation" where
  "with_id u i =
     \<lparr>type = type u, question = question u, requirements = requirements u,
       feedbackDuration = feedbackDuration u, timestamp = timestamp u, id_ann = i\<rparr>"

definition handleUpdateAnnotation :: "string \<Rightarrow> annotation_no_id \<Rightarrow> app_state \<Rightarrow> app_state" where
  "handleUpdateAnnotation i updatedAnnotation s =
     s\<lparr>annotations :=
         map (\<lambda>ann. if id_ann ann = i then with_id updatedAnnotation i else ann) (annotations s)\<rparr>"

definition handleEdit :: "annotation \<Rightarrow> panel_state \<Rightarrow> panel_state" where
  "handleEdit ann p =
     p\<lparr>editingId := Some (id_ann ann),
       editForm := Some \<lparr>type = type ann, question = question ann,
         requirements = requirements ann, feedbackDuration = feedbackDuration ann\<rparr>\<rparr>"

definition handleSaveEdit :: "annotation \<Rightarrow> app_state \<times> panel_state \<Rightarrow> app_state \<times> panel_state" where
  "handleSaveEdit ann sp =
     (case sp of (s, p) \<Rightarrow>
        (case editForm p of
           None \<Rightarrow> (s, p)
         | Some ef \<Rightarrow>
             if trim (question ef) \<noteq> [] then
               (handleUpdateAnnotation (id_ann ann)
                  \<lparr>type = type ef, question = question ef, requirements = requirements ef,
                    feedbackDuration = feedbackDuration ef, timestamp = timestamp ann\<rparr> s,
                p\<lparr>editingId := None, editForm := None\<rparr>)
             else (s, p)))"

definition handleCancelEdit :: "panel_state \<Rightarrow> panel_state" where
  "handleCancelEdit p = p\<lparr>editingId := None, editForm := None\<rparr>"

subsection \<open>The export document: \<^verbatim>\<open>handleGenerateJSON\<close>\<close>

text \<open>The document is a JavaScript object literal; an object is the list of its own
  properties in creation order.\<close>

datatype json = JNumber real | JString string | JArray "json list" | JObject "(string \<times> json) list"

definition type_name :: "annotation_type \<Rightarrow> string" where
  "type_name ty = (case ty of VLM \<Rightarrow> ''VLM'' | LLM \<Rightarrow> ''LLM'')"

text \<open>\<^verbatim>\<open>({ id, ...rest }) => rest\<close>: every property of the record but \<^verbatim>\<open>id\<close>.\<close>

definition rest_of :: "annotation \<Rightarrow> json" where
  "rest_of ann =
     JObject [(''timestamp'', JNumber (timestamp ann)), (''type'', JString (type_name (type ann))),
       (''question'', JString (question ann)), (''requirements'', JString (requirements ann)),
       (''feedbackDuration'', JNumber (feedbackDuration ann))]"

definition jsonData :: "app_state \<Rightarrow> json" where
  "jsonData s =
     JObject [(''videoUrl'', JString (videoUrl s)),
       (''totalAnnotations'', JNumber (real (length (annotations s)))),
       (''annotations'', JArray (map rest_of (annotations s)))]"

text \<open>The handler sets no cell: it hands the browser a file to download, named after the
  clock, and returns the state as it was.\<close>

record download =
  download_name :: string
  content :: json

definition handleGenerateJSON :: "int \<Rightarrow> app_state \<Rightarrow> app_state \<times> download" where
  "handleGenerateJSON now s =
     (s, \<lparr>download_name = ''video-annotations-'' @ number_toString now @ ''.json'',
          content = jsonData s\<rparr>)"

subsection \<open>Subtitles: \<^verbatim>\<open>convertSrtToVtt\<close>\<close>

text \<open>The pattern \<^verbatim>\<open>/(\d{2}:\d{2}:\d{2}),(\d{3})/g\<close> is a sequence of twelve character
  classes. \<^verbatim>\<open>replace\<close> with the flag \<^verbatim>\<open>g\<close> scans from the left; where the pattern
  matches it writes \<^verbatim>\<open>$1.$2\<close> and goes on behind the match, elsewhere it copies one
  character.\<close>

datatype char_class = Digit | Lit char

fun accepts :: "char_class \<Rightarrow> char \<Rightarrow> bool" where
  "accepts Digit c = is_digit c"
| "accepts (Lit l) c = (c = l)"

fun matches_at :: "char_class list \<Rightarrow> string \<Rightarrow> bool" where
  "matches_at [] s = True"
| "matches_at (k # ks) [] = False"
| "matches_at (k # ks) (c # cs) = (accepts k c \<and> matches_at ks cs)"

definition srt_time :: "char_class list" where
  "srt_time = [Digit, Digit, Lit CHR '':'', Digit, Digit, Lit CHR '':'', Digit, Digit,
     Lit CHR '','', Digit, Digit, Digit]"

function replace_times :: "string \<Rightarrow> string" where
  "replace_times [] = []"
| "replace_times (c # cs) =
     (if matches_at srt_time (c # cs) then
        take 8 (c # cs) @ ''.'' @ take 3 (drop 9 (c # cs)) @ replace_times (drop 12 (c # cs))
      else c # replace_times cs)"
  by pat_completeness auto
termination
  by (relation "measure length") auto

definition convertSrtToVtt :: "string \<Rightarrow> string" where
  "convertSrtToVtt srt = ''WEBVTT\<newline>\<newline>'' @ replace_times srt"

subsection \<open>Sample values\<close>

text \<open>The record of the example session: a question about a car, no requirements, the
  default feedback duration.\<close>

definition sample :: "string \<Rightarrow> real \<Rightarrow> annotation" where
  "sample i t = \<lparr>type = VLM, question = ''What color is the car?'', requirements = '''',
     feedbackDuration = 6, timestamp = t, id_ann = i\<rparr>"

text \<open>Two sessions from the initial state: the first is committed when the clock reads
  1000, the second is started right after it and asks the same question.\<close>

definition first_commit :: "app_state \<times> panel_state" where
  "first_commit =
     handleDone 1000 (handleStartAnnotation initial_app, initial_panel\<lparr>annotationQuestion := ''Who?''\<rparr>)"

definition second_session :: "app_state \<times> panel_state" where
  "second_session =
     (handleStartAnnotation (fst first_commit), (snd first_commit)\<lparr>annotationQuestion := ''Who?''\<rparr>)"

text \<open>A collection in which the first and the third record share an id, and a panel in
  which the third record is being edited with a valid form.\<close>

definition shared_id_state :: app_state where
  "shared_id_state = initial_app\<lparr>annotations := [sample ''17'' 1, sample ''18'' 2, sample ''17'' 3]\<rparr>"

definition shared_id_panel :: panel_state where
  "shared_id_panel =
     (handleEdit (sample ''17'' 3) initial_panel)\<lparr>editForm :=
        Some \<lparr>type = LLM, question = ''Why?'', requirements = ''short'', feedbackDuration = 3\<rparr>\<rparr>"

section \<open>Properties\<close>

subsection \<open>Auxiliary facts\<close>

lemma length_filter_split:
  "length (filter (\<lambda>a. \<not> P a) xs) + length (filter P xs) = length xs"
  by (induction xs) auto

lemma filter_absent_id:
  "i \<notin> id_ann ` set xs \<Longrightarrow> filter (\<lambda>ann. id_ann ann \<noteq> i) xs = xs"
  by (induction xs) auto

lemma filter_present_id:
  "i \<in> id_ann ` set xs \<Longrightarrow> length (filter (\<lambda>ann. id_ann ann \<noteq> i) xs) < length xs"
  by (metis (mono_tags, lifting) image_iff length_filter_less)

lemma same_id_same_record:
  assumes "distinct (map id_ann xs)" and "k < length xs" and "x \<in> set xs"
    and "id_ann x = id_ann (xs ! k)"
  shows "x = xs ! k"
proof -
  have "inj_on id_ann (set xs)" using assms(1) by (simp add: distinct_map)
  moreover have "xs ! k \<in> set xs" using assms(2) by simp
  ultimately show ?thesis using assms(3,4) by (auto dest: inj_onD)
qed

subsection \<open>Printing a number is injective\<close>

lemma digit_char_code: "d < 10 \<Longrightarrow> of_char (digit_char d) = (48 + d :: nat)"
proof -
  assume "d < 10"
  then have "d \<in> {0, 1, 2, 3, 4, 5, 6, 7, 8, 9}" by auto
  then show ?thesis by (auto simp: digit_char_def)
qed

lemma digit_char_inj:
  assumes "a < 10" and "b < 10" and "digit_char a = digit_char b"
  shows "a = b"
proof -
  have "(of_char (digit_char a) :: nat) = of_char (digit_char b)"
    by (simp only: assms(3))
  then have "(48 + a :: nat) = 48 + b"
    by (simp only: digit_char_code [OF assms(1)] digit_char_code [OF assms(2)])
  then show ?thesis by (simp only: add_left_cancel)
qed

lemma digit_char_not_minus: "d < 10 \<Longrightarrow> digit_char d \<noteq> CHR ''-''"
  using digit_char_code [of d] by auto

lemma show_nat_not_empty: "show_nat n \<noteq> []"
  by (subst show_nat.simps) simp

lemma show_nat_length: "length (show_nat n) = 1 \<longleftrightarrow> n < 10"
  using show_nat_not_empty [of "n div 10"]
  by (subst show_nat.simps) (simp add: Suc_length_conv)

lemma show_nat_no_minus: "CHR ''-'' \<notin> set (show_nat n)"
proof (induction n rule: show_nat.induct)
  case (1 n)
  show ?case
  proof (cases "n < 10")
    case True
    then show ?thesis
      using digit_char_not_minus [of n] by (subst show_nat.simps) auto
  next
    case False
    then show ?thesis
      using 1 digit_char_not_minus [of "n mod 10"] by (subst show_nat.simps) auto
  qed
qed

lemma show_nat_inj: "show_nat n = show_nat m \<Longrightarrow> n = m"
proof (induction n arbitrary: m rule: show_nat.induct)
  case (1 n)
  show ?case
  proof (cases "n < 10")
    case True
    then have "length (show_nat m) = 1"
      using "1.prems" show_nat_length [of n] by simp
    then have m: "m < 10" using show_nat_length [of m] by simp
    from True m "1.prems" have "digit_char n = digit_char m"
      by (simp add: show_nat.simps)
    with True m show ?thesis by (rule digit_char_inj)
  next
    case False
    then have "length (show_nat m) \<noteq> 1"
      using "1.prems" show_nat_length [of n] by simp
    then have m: "\<not> m < 10" using show_nat_length [of m] by simp
    from False m "1.prems"
    have "show_nat (n div 10) @ [digit_char (n mod 10)] = show_nat (m div 10) @ [digit_char (m mod 10)]"
      by (simp add: show_nat.simps)
    then have q: "show_nat (n div 10) = show_nat (m div 10)"
      and r: "digit_char (n mod 10) = digit_char (m mod 10)" by simp_all
    from "1.IH" [OF False q] have "n div 10 = m div 10" .
    moreover from r have "n mod 10 = m mod 10" by (auto intro: digit_char_inj)
    ultimately show ?thesis by (metis div_mult_mod_eq)
  qed
qed

lemma number_toString_inj: "number_toString a = number_toString b \<Longrightarrow> a = b"
proof -
  assume eq: "number_toString a = number_toString b"
  have no: "CHR ''-'' # xs \<noteq> show_nat k" for xs k
    using show_nat_no_minus [of k] by (metis list.set_intros(1))
  show ?thesis
  proof (cases "a < 0")
    case True
    then have b: "b < 0" using eq no [of _ "nat b"]
      by (auto simp: number_toString_def split: if_splits)
    with True eq have "nat (- a) = nat (- b)"
      by (auto simp: number_toString_def dest: show_nat_inj)
    with True b show ?thesis by simp
  next
    case False
    then have b: "\<not> b < 0" using eq no [of _ "nat a"]
      by (auto simp: number_toString_def split: if_splits)
    with False eq have "nat a = nat b"
      by (auto simp: number_toString_def dest: show_nat_inj)
    with False b show ?thesis by simp
  qed
qed

lemma trim_who: "trim ''Who?'' \<noteq> []"
  by (simp add: trim_def is_space_def)

lemma number_toString_1000: "number_toString 1000 = ''1000''"
  by code_simp

subsection \<open>The search for a video id\<close>

lemma strip_prefix_Some: "strip_prefix m s = Some rest \<longleftrightarrow> s = m @ rest"
  by (induction m s rule: strip_prefix.induct) auto

lemma takeWhile_not_empty: "takeWhile P xs \<noteq> [] \<longleftrightarrow> (\<exists>c post. xs = c # post \<and> P c)"
  by (cases xs) auto

lemma match_alternatives_Some:
  "match_alternatives ms s \<noteq> None \<longleftrightarrow>
   (\<exists>m \<in> set ms. \<exists>c post. s = m @ c # post \<and> id_run_char c)"
proof (induction ms)
  case Nil
  show ?case by simp
next
  case (Cons m ms)
  let ?Q = "\<lambda>m. \<exists>c post. s = m @ c # post \<and> id_run_char c"
  have split: "(\<exists>k \<in> set (m # ms). ?Q k) \<longleftrightarrow> ?Q m \<or> (\<exists>k \<in> set ms. ?Q k)" by simp
  have here: "?Q m \<longleftrightarrow>
      (\<exists>rest. strip_prefix m s = Some rest \<and> takeWhile id_run_char rest \<noteq> [])"
    unfolding strip_prefix_Some takeWhile_not_empty by auto
  show ?case
  proof (cases "?Q m")
    case True
    then obtain rest where "strip_prefix m s = Some rest" "takeWhile id_run_char rest \<noteq> []"
      unfolding here by blast
    then have "match_alternatives (m # ms) s \<noteq> None" by (simp add: Let_def)
    with True show ?thesis unfolding split by blast
  next
    case False
    then have eq: "match_alternatives (m # ms) s = match_alternatives ms s"
      unfolding here by (cases "strip_prefix m s") (simp_all add: Let_def)
    have "match_alternatives (m # ms) s \<noteq> None \<longleftrightarrow> (\<exists>k \<in> set ms. ?Q k)"
      unfolding eq by (rule Cons.IH)
    with False show ?thesis unfolding split by blast
  qed
qed

lemma match_alternatives_group: "match_alternatives ms s = Some g \<Longrightarrow> g \<noteq> []"
  by (induction ms) (auto simp: Let_def split: option.splits if_splits)

lemma match_marker_group: "match_marker s = Some g \<Longrightarrow> g \<noteq> []"
  by (induction s) (auto split: option.splits dest: match_alternatives_group)

lemma match_marker_Some:
  "match_marker s \<noteq> None \<longleftrightarrow>
   (\<exists>pre m c post. m \<in> set video_id_markers \<and> s = pre @ m @ c # post \<and> id_run_char c)"
proof (induction s)
  case Nil
  have "match_alternatives video_id_markers [] = None"
    by (simp add: video_id_markers_def)
  then show ?case by simp
next
  case (Cons x xs)
  have here: "match_alternatives video_id_markers (x # xs) \<noteq> None \<longleftrightarrow>
      (\<exists>m c post. m \<in> set video_id_markers \<and> x # xs = [] @ m @ c # post \<and> id_run_char c)"
    unfolding match_alternatives_Some by (simp only: append_Nil) blast
  have split: "(\<exists>pre m c post. m \<in> set video_id_markers \<and> x # xs = pre @ m @ c # post \<and> id_run_char c)
      \<longleftrightarrow> (\<exists>m c post. m \<in> set video_id_markers \<and> x # xs = [] @ m @ c # post \<and> id_run_char c) \<or>
          (\<exists>pre m c post. m \<in> set video_id_markers \<and> xs = pre @ m @ c # post \<and> id_run_char c)"
    (is "?L \<longleftrightarrow> ?H \<or> ?T")
  proof
    assume ?L
    then obtain pre m c post where *: "m \<in> set video_id_markers" "x # xs = pre @ m @ c # post"
      "id_run_char c" by blast
    show "?H \<or> ?T"
    proof (cases pre)
      case Nil
      with * show ?thesis by auto
    next
      case (Cons y ys)
      with * have "xs = ys @ m @ c # post" by simp
      with * show ?thesis by blast
    qed
  next
    assume "?H \<or> ?T"
    then show ?L
    proof
      assume ?H then show ?L by blast
    next
      assume ?T
      then obtain pre m c post where "m \<in> set video_id_markers" "xs = pre @ m @ c # post"
        "id_run_char c" by blast
      then have "m \<in> set video_id_markers \<and> x # xs = (x # pre) @ m @ c # post \<and> id_run_char c"
        by simp
      then show ?L by blast
    qed
  qed
  have "match_marker (x # xs) \<noteq> None \<longleftrightarrow>
      match_alternatives video_id_markers (x # xs) \<noteq> None \<or> match_marker xs \<noteq> None"
    by (simp split: option.splits)
  then show ?case unfolding split here [symmetric] Cons.IH [symmetric] .
qed

lemma extractYouTubeVideoId_Some:
  "extractYouTubeVideoId url \<noteq> None \<longleftrightarrow>
   (\<exists>pre m c post. m \<in> set video_id_markers \<and> url = pre @ m @ c # post \<and> id_run_char c) \<or>
   (length url = 11 \<and> list_all bare_id_char url)"
proof -
  have "extractYouTubeVideoId url \<noteq> None \<longleftrightarrow>
      match_marker url \<noteq> None \<or> (length url = 11 \<and> list_all bare_id_char url)"
    using match_marker_group [of url]
    by (cases "match_marker url") (auto simp: extractYouTubeVideoId_def match_bare_id_def)
  then show ?thesis unfolding match_marker_Some .
qed

lemma extractYouTubeVideoId_group: "extractYouTubeVideoId url = Some g \<Longrightarrow> g \<noteq> []"
  using match_marker_group [of url]
  by (auto simp: extractYouTubeVideoId_def match_bare_id_def split: option.splits if_splits)

lemmas extract_eval = extractYouTubeVideoId_def video_id_markers_def match_bare_id_def
  id_run_char_def is_space_def bare_id_char_def

subsection \<open>The scan for subtitle times\<close>

lemma matches_srt_time_shape:
  assumes "matches_at srt_time s"
  shows "\<exists>pre mid post. s = pre @ CHR '','' # mid @ post \<and> length pre = 8 \<and> length mid = 3"
proof -
  from assms obtain a b c d e f g h i j k l post where "s = [a, b, c, d, e, f, g, h, i, j, k, l] @ post"
    and "i = CHR '',''"
    by (auto simp: srt_time_def elim!: matches_at.elims)
  then have "s = [a, b, c, d, e, f, g, h] @ CHR '','' # [j, k, l] @ post \<and>
      length [a, b, c, d, e, f, g, h] = 8 \<and> length [j, k, l] = 3"
    by simp
  then show ?thesis by blast
qed

lemma replace_times_match:
  assumes "matches_at srt_time s" and "s = pre @ CHR '','' # mid @ post"
    and "length pre = 8" and "length mid = 3"
  shows "replace_times s = pre @ CHR ''.'' # mid @ replace_times post"
proof -
  from assms(2) have "s \<noteq> []" by simp
  then obtain c cs where s: "s = c # cs" by (cases s) auto
  have "take 8 s = pre" "take 3 (drop 9 s) = mid" "drop 12 s = post"
    using assms(2-4) by simp_all
  with assms(1) show ?thesis unfolding s by simp
qed

lemma length_replace_times: "length (replace_times s) = length s"
proof (induction s rule: replace_times.induct)
  case 1
  show ?case by simp
next
  case (2 c cs)
  show ?case
  proof (cases "matches_at srt_time (c # cs)")
    case True
    then obtain pre mid post where sh: "c # cs = pre @ CHR '','' # mid @ post"
      "length pre = 8" "length mid = 3"
      using matches_srt_time_shape by blast
    then have post: "drop 12 (c # cs) = post" by simp
    have "length (replace_times post) = length post"
      by (rule 2(1) [OF True, unfolded post])
    then show ?thesis
      using replace_times_match [OF True sh] sh by simp
  next
    case False
    with 2(2) show ?thesis by simp
  qed
qed

lemma replace_times_changes:
  "i < length s \<Longrightarrow> replace_times s ! i \<noteq> s ! i \<Longrightarrow>
   s ! i = CHR '','' \<and> replace_times s ! i = CHR ''.'' \<and> 8 \<le> i \<and>
   matches_at srt_time (drop (i - 8) s)"
proof (induction s arbitrary: i rule: replace_times.induct)
  case 1
  then show ?case by simp
next
  case (2 c cs)
  show ?case
  proof (cases "matches_at srt_time (c # cs)")
    case False
    from False "2.prems" obtain j where i: "i = Suc j" by (cases i) auto
    with False "2.prems" have "j < length cs" "replace_times cs ! j \<noteq> cs ! j" by simp_all
    from "2.IH"(2) [OF False this]
    have "cs ! j = CHR '',''" "replace_times cs ! j = CHR ''.''" "8 \<le> j"
      "matches_at srt_time (drop (j - 8) cs)" by simp_all
    moreover from \<open>8 \<le> j\<close> have "Suc j - 8 = Suc (j - 8)" by simp
    ultimately show ?thesis using False i by simp
  next
    case True
    then obtain pre mid post where sh: "c # cs = pre @ CHR '','' # mid @ post"
      "length pre = 8" "length mid = 3"
      using matches_srt_time_shape by blast
    then have post: "drop 12 (c # cs) = post" by simp
    have out: "replace_times (c # cs) = pre @ CHR ''.'' # mid @ replace_times post"
      by (rule replace_times_match [OF True sh])
    have len: "length (replace_times post) = length post" by (rule length_replace_times)
    consider "i < 8" | "i = 8" | "8 < i" "i < 12" | "12 \<le> i" by linarith
    then show ?thesis
    proof cases
      case 1
      then have "replace_times (c # cs) ! i = (c # cs) ! i"
        unfolding out unfolding sh(1) using sh(2) by (simp add: nth_append)
      with "2.prems" show ?thesis by simp
    next
      case 2
      have "(c # cs) ! i = CHR '',''" "replace_times (c # cs) ! i = CHR ''.''"
        unfolding out unfolding sh(1) using sh(2) 2 by (simp_all add: nth_append)
      with 2 True show ?thesis by simp
    next
      case 3
      then have "replace_times (c # cs) ! i = (c # cs) ! i"
        unfolding out unfolding sh(1) using sh(2,3) by (auto simp: nth_append nth_Cons')
      with "2.prems" show ?thesis by simp
    next
      case 4
      then have a: "replace_times (c # cs) ! i = replace_times post ! (i - 12)"
        unfolding out using sh(2,3) by (auto simp: nth_append nth_Cons')
      from 4 have b: "(c # cs) ! i = post ! (i - 12)"
        unfolding sh(1) using sh(2,3) by (auto simp: nth_append nth_Cons')
      from 4 "2.prems"(1) have c: "i - 12 < length post"
        unfolding sh(1) using sh(2,3) by simp
      from "2.prems"(2) a b have d: "replace_times post ! (i - 12) \<noteq> post ! (i - 12)" by simp
      from "2.IH"(1) [OF True, unfolded post, OF c d]
      have r: "post ! (i - 12) = CHR '',''" "replace_times post ! (i - 12) = CHR ''.''"
        "8 \<le> i - 12" "matches_at srt_time (drop (i - 12 - 8) post)" by simp_all
      from r(3) have "i - 12 - 8 + 12 = i - 8" by arith
      then have "drop (i - 12 - 8) (drop 12 (c # cs)) = drop (i - 8) (c # cs)"
        by (simp only: drop_drop)
      with r(4) have "matches_at srt_time (drop (i - 8) (c # cs))"
        by (simp only: post)
      moreover from r(3) have "8 \<le> i" by arith
      ultimately show ?thesis using r(1,2) a b by simp
    qed
  qed
qed

lemma replace_times_disjoint:
  "matches_at srt_time (drop k s) \<Longrightarrow>
   (\<forall>j < k. matches_at srt_time (drop j s) \<longrightarrow> j + 12 \<le> k) \<Longrightarrow>
   replace_times s ! (k + 8) = CHR ''.''"
proof (induction s arbitrary: k rule: replace_times.induct)
  case 1
  then show ?case by (simp add: srt_time_def)
next
  case (2 c cs)
  show ?case
  proof (cases "matches_at srt_time (c # cs)")
    case True
    note hit = True
    then obtain pre mid post where sh: "c # cs = pre @ CHR '','' # mid @ post"
      "length pre = 8" "length mid = 3"
      using matches_srt_time_shape by blast
    then have post: "drop 12 (c # cs) = post" by simp
    have out: "replace_times (c # cs) = pre @ CHR ''.'' # mid @ replace_times post"
      by (rule replace_times_match [OF hit sh])
    show ?thesis
    proof (cases "k = 0")
      case True
      then show ?thesis unfolding out using sh(2) by (simp add: nth_append)
    next
      case False
      then have "0 < k" by simp
      moreover from hit have "matches_at srt_time (drop 0 (c # cs))" by simp
      ultimately have "0 + 12 \<le> k" using "2.prems"(2) by blast
      then have far: "12 \<le> k" by simp
      have shift: "drop j post = drop (j + 12) (c # cs)" for j
        unfolding post [symmetric] by (simp only: drop_drop)
      from far have restore: "k - 12 + 12 = k" by simp
      have m: "matches_at srt_time (drop (k - 12) post)"
        unfolding shift restore by (rule "2.prems"(1))
      have e: "\<forall>j < k - 12. matches_at srt_time (drop j post) \<longrightarrow> j + 12 \<le> k - 12"
      proof (intro allI impI)
        fix j assume "j < k - 12" and "matches_at srt_time (drop j post)"
        then have "j + 12 < k" and "matches_at srt_time (drop (j + 12) (c # cs))"
          unfolding shift by simp_all
        with "2.prems"(2) have "j + 12 + 12 \<le> k" by blast
        then show "j + 12 \<le> k - 12" by simp
      qed
      have "replace_times post ! (k - 12 + 8) = CHR ''.''"
        by (rule "2.IH"(1) [OF hit, unfolded post, OF m e])
      moreover from far have "replace_times (c # cs) ! (k + 8) = replace_times post ! (k - 12 + 8)"
        unfolding out using sh(2,3) by (auto simp: nth_append nth_Cons')
      ultimately show ?thesis by simp
    qed
  next
    case False
    with "2.prems"(1) obtain n where k: "k = Suc n" by (cases k) auto
    from "2.prems"(1) have m: "matches_at srt_time (drop n cs)" unfolding k by simp
    have e: "\<forall>j < n. matches_at srt_time (drop j cs) \<longrightarrow> j + 12 \<le> n"
    proof (intro allI impI)
      fix j assume "j < n" and "matches_at srt_time (drop j cs)"
      then have "Suc j < k" and "matches_at srt_time (drop (Suc j) (c # cs))"
        unfolding k by simp_all
      with "2.prems"(2) have "Suc j + 12 \<le> k" by blast
      then show "j + 12 \<le> n" unfolding k by simp
    qed
    have "replace_times cs ! (n + 8) = CHR ''.''"
      by (rule "2.IH"(2) [OF False m e])
    with False show ?thesis unfolding k by (simp add: add.commute)
  qed
qed

lemma example_earlier_matches:
  "\<forall>j < 19. matches_at srt_time (drop j ''1\<newline>00:00:01,000 --> 00:00:02,500\<newline>Hello\<newline>'') \<longrightarrow>
     j + 12 \<le> 19"
proof (intro allI impI)
  fix j :: nat
  assume "j < 19"
    and m: "matches_at srt_time (drop j ''1\<newline>00:00:01,000 --> 00:00:02,500\<newline>Hello\<newline>'')"
  then have "j = 0 \<or> j = 1 \<or> j = 2 \<or> j = 3 \<or> j = 4 \<or> j = 5 \<or> j = 6 \<or> j = 7 \<or> j = 8 \<or>
      j = 9 \<or> j = 10 \<or> j = 11 \<or> j = 12 \<or> j = 13 \<or> j = 14 \<or> j = 15 \<or> j = 16 \<or> j = 17 \<or>
      j = 18"
    by arith
  with m show "j + 12 \<le> 19"
    by (elim disjE) (simp_all add: srt_time_def is_digit_def)
qed

subsection \<open>Deleting\<close>

text \<open>C8: \<^verbatim>\<open>delete(id)\<close> removes the matching record if one is present (no record with
  that id is left, the collection gets shorter, and every record with another id stays) and
  changes nothing if none is present; deleting the same id a second time changes nothing
  more.\<close>

theorem delete_idempotent:
  "handleDeleteAnnotation i (handleDeleteAnnotation i s) = handleDeleteAnnotation i s \<and>
   (i \<notin> id_ann ` set (annotations s) \<longrightarrow> handleDeleteAnnotation i s = s) \<and>
   (i \<in> id_ann ` set (annotations s) \<longrightarrow>
      length (annotations (handleDeleteAnnotation i s)) < length (annotations s)) \<and>
   i \<notin> id_ann ` set (annotations (handleDeleteAnnotation i s)) \<and>
   (\<forall>a \<in> set (annotations s). id_ann a \<noteq> i \<longrightarrow> a \<in> set (annotations (handleDeleteAnnotation i s)))"
  using filter_absent_id [of i "annotations s"] filter_present_id [of i "annotations s"]
  by (auto simp: handleDeleteAnnotation_def)

theorem delete_idempotent_witness:
  "(let s = initial_app\<lparr>annotations := [sample ''17'' 1, sample ''18'' 2]\<rparr>
    in ''19'' \<notin> id_ann ` set (annotations s) \<and> handleDeleteAnnotation ''19'' s = s \<and>
       ''17'' \<in> id_ann ` set (annotations s) \<and>
       annotations (handleDeleteAnnotation ''17'' s) = [sample ''18'' 2] \<and>
       handleDeleteAnnotation ''17'' (handleDeleteAnnotation ''17'' s) = handleDeleteAnnotation ''17'' s)"
  using delete_idempotent [of "''19''" "initial_app\<lparr>annotations := [sample ''17'' 1, sample ''18'' 2]\<rparr>"]
    delete_idempotent [of "''17''" "initial_app\<lparr>annotations := [sample ''17'' 1, sample ''18'' 2]\<rparr>"]
  by (simp add: Let_def handleDeleteAnnotation_def sample_def initial_app_def)

text \<open>C10: \<^verbatim>\<open>delete(id)\<close> removes every record with that id, not only the first: the
  collection shrinks by the number of records that carry the id, and none of them is left.
  Records that share an id exist: two commits at the same reading of the clock add two
  records with the same id, and one delete of that id removes both.\<close>

theorem delete_removes_every_match:
  "length (annotations (handleDeleteAnnotation i s)) +
     length (filter (\<lambda>ann. id_ann ann = i) (annotations s)) = length (annotations s) \<and>
   (\<forall>ann \<in> set (annotations (handleDeleteAnnotation i s)). id_ann ann \<noteq> i) \<and>
   (trim q \<noteq> [] \<longrightarrow>
     (let sp1 = handleDone now (handleStartAnnotation s, p\<lparr>annotationQuestion := q\<rparr>);
          sp2 = handleDone now (handleStartAnnotation (fst sp1), (snd sp1)\<lparr>annotationQuestion := q\<rparr>)
      in length (filter (\<lambda>ann. id_ann ann = number_toString now) (annotations (fst sp2))) \<ge> 2 \<and>
         length (annotations (fst sp2)) = length (annotations s) + 2 \<and>
         length (annotations (handleDeleteAnnotation (number_toString now) (fst sp2)))
           \<le> length (annotations s)))"
proof -
  have a: "length (annotations (handleDeleteAnnotation i s)) +
     length (filter (\<lambda>ann. id_ann ann = i) (annotations s)) = length (annotations s)"
    using length_filter_split [of "\<lambda>ann. id_ann ann = i" "annotations s"]
    by (simp add: handleDeleteAnnotation_def)
  have b: "\<forall>ann \<in> set (annotations (handleDeleteAnnotation i s)). id_ann ann \<noteq> i"
    by (simp add: handleDeleteAnnotation_def)
  have c: "trim q \<noteq> [] \<longrightarrow>
     (let sp1 = handleDone now (handleStartAnnotation s, p\<lparr>annotationQuestion := q\<rparr>);
          sp2 = handleDone now (handleStartAnnotation (fst sp1), (snd sp1)\<lparr>annotationQuestion := q\<rparr>)
      in length (filter (\<lambda>ann. id_ann ann = number_toString now) (annotations (fst sp2))) \<ge> 2 \<and>
         length (annotations (fst sp2)) = length (annotations s) + 2 \<and>
         length (annotations (handleDeleteAnnotation (number_toString now) (fst sp2)))
           \<le> length (annotations s))"
    by (simp add: handleDone_def handleDoneAnnotation_def handleStartAnnotation_def
        handleDeleteAnnotation_def Let_def)
  from a b c show ?thesis by blast
qed

theorem delete_removes_every_match_witness:
  "(let s = initial_app\<lparr>annotations := [sample ''17'' 1, sample ''18'' 2, sample ''17'' 3]\<rparr>
    in length (filter (\<lambda>ann. id_ann ann = ''17'') (annotations s)) = 2 \<and>
       annotations (handleDeleteAnnotation ''17'' s) = [sample ''18'' 2]) \<and>
   trim ''Who?'' \<noteq> [] \<and>
   (let sp1 = handleDone 1000 (handleStartAnnotation initial_app, initial_panel\<lparr>annotationQuestion := ''Who?''\<rparr>);
        sp2 = handleDone 1000 (handleStartAnnotation (fst sp1), (snd sp1)\<lparr>annotationQuestion := ''Who?''\<rparr>)
    in map id_ann (annotations (fst sp2)) = [''1000'', ''1000''] \<and>
       annotations (handleDeleteAnnotation ''1000'' (fst sp2)) = [])"
proof -
  have n: "number_toString 1000 = ''1000''" by code_simp
  have t: "trim ''Who?'' \<noteq> []" by (simp add: trim_def is_space_def)
  show ?thesis
    using delete_removes_every_match [where i = "''17''" and q = "''Who?''" and now = 1000
        and s = "initial_app\<lparr>annotations := [sample ''17'' 1, sample ''18'' 2, sample ''17'' 3]\<rparr>"
        and p = initial_panel]
      delete_removes_every_match [where i = "''17''" and q = "''Who?''" and now = 1000
        and s = initial_app and p = initial_panel] t
    by (simp add: Let_def handleDeleteAnnotation_def sample_def initial_app_def initial_panel_def
        handleDone_def handleDoneAnnotation_def handleStartAnnotation_def n)
qed

subsection \<open>Loading a source\<close>

text \<open>C2 (as stated): the source \<^verbatim>\<open>https://host/watch?v=abcdefghijk\<close> would select the
  hosted player with the id \<^verbatim>\<open>abcdefghijk\<close>, and any source containing a marker would.
  It does not: the markers name the hosts \<^verbatim>\<open>youtube.com\<close> and \<^verbatim>\<open>youtu.be\<close>, so that
  source is loaded in the native player; and a marker with no id character behind it is no
  match either.\<close>

theorem host_watch_url_counterexample:
  "trim ''https://host/watch?v=abcdefghijk'' \<noteq> [] \<and>
   extractYouTubeVideoId ''https://host/watch?v=abcdefghijk'' = None \<and>
   videoType (handleLoadVideo (initial_app\<lparr>inputUrl := ''https://host/watch?v=abcdefghijk''\<rparr>)) = Direct \<and>
   videoUrl (handleLoadVideo (initial_app\<lparr>inputUrl := ''https://host/watch?v=abcdefghijk''\<rparr>)) =
     ''https://host/watch?v=abcdefghijk'' \<and>
   videoType (handleLoadVideo (initial_app\<lparr>inputUrl := ''https://youtu.be/''\<rparr>)) = Direct"
  by (simp add: handleLoadVideo_def initial_app_def trim_def extract_eval Let_def)

text \<open>C2 (amended): a source that is not blank selects the hosted player exactly when it
  contains \<^verbatim>\<open>youtube.com/watch?v=\<close>, \<^verbatim>\<open>youtu.be/\<close> or \<^verbatim>\<open>youtube.com/embed/\<close> followed by
  a character other than \<^verbatim>\<open>&\<close>, \<^verbatim>\<open>?\<close> and whitespace, or is eleven characters of letters,
  digits, \<^verbatim>\<open>_\<close> and \<^verbatim>\<open>-\<close>; the id stored is the one extracted, and every other source
  selects the native player. \<^verbatim>\<open>https://www.youtube.com/watch?v=abcdefghijk\<close> selects the
  hosted player with the id \<^verbatim>\<open>abcdefghijk\<close>, \<^verbatim>\<open>https://cdn.example.com/clip.mp4\<close> the
  native one.\<close>

theorem load_selects_engine:
  "(trim (inputUrl s) \<noteq> [] \<longrightarrow>
      (videoType (handleLoadVideo s) = Youtube \<longleftrightarrow>
         (\<exists>pre m c post.
            m \<in> {''youtube.com/watch?v='', ''youtu.be/'', ''youtube.com/embed/''} \<and>
            inputUrl s = pre @ m @ c # post \<and> c \<noteq> CHR ''&'' \<and> c \<noteq> CHR ''?'' \<and> \<not> is_space c) \<or>
         (length (inputUrl s) = 11 \<and> (\<forall>c \<in> set (inputUrl s). bare_id_char c))) \<and>
      (videoType (handleLoadVideo s) = Youtube \<longrightarrow>
         extractYouTubeVideoId (inputUrl s) = Some (youtubeVideoId (handleLoadVideo s))) \<and>
      (videoType (handleLoadVideo s) \<noteq> Youtube \<longrightarrow> videoType (handleLoadVideo s) = Direct)) \<and>
   videoType (handleLoadVideo
     (initial_app\<lparr>inputUrl := ''https://www.youtube.com/watch?v=abcdefghijk''\<rparr>)) = Youtube \<and>
   youtubeVideoId (handleLoadVideo
     (initial_app\<lparr>inputUrl := ''https://www.youtube.com/watch?v=abcdefghijk''\<rparr>)) = ''abcdefghijk'' \<and>
   videoType (handleLoadVideo
     (initial_app\<lparr>inputUrl := ''https://cdn.example.com/clip.mp4''\<rparr>)) = Direct"
proof -
  let ?marked = "\<exists>pre m c post.
      m \<in> {''youtube.com/watch?v='', ''youtu.be/'', ''youtube.com/embed/''} \<and>
      inputUrl s = pre @ m @ c # post \<and> c \<noteq> CHR ''&'' \<and> c \<noteq> CHR ''?'' \<and> \<not> is_space c"
  let ?bare = "length (inputUrl s) = 11 \<and> (\<forall>c \<in> set (inputUrl s). bare_id_char c)"
  have markers: "set video_id_markers = {''youtube.com/watch?v='', ''youtu.be/'', ''youtube.com/embed/''}"
    by (simp add: video_id_markers_def)
  have run: "id_run_char c \<longleftrightarrow> c \<noteq> CHR ''&'' \<and> c \<noteq> CHR ''?'' \<and> \<not> is_space c" for c
    by (auto simp: id_run_char_def)
  have found: "extractYouTubeVideoId (inputUrl s) \<noteq> None \<longleftrightarrow> ?marked \<or> ?bare"
    unfolding extractYouTubeVideoId_Some markers run list_all_iff ..
  have general: "trim (inputUrl s) \<noteq> [] \<longrightarrow>
      (videoType (handleLoadVideo s) = Youtube \<longleftrightarrow> ?marked \<or> ?bare) \<and>
      (videoType (handleLoadVideo s) = Youtube \<longrightarrow>
         extractYouTubeVideoId (inputUrl s) = Some (youtubeVideoId (handleLoadVideo s))) \<and>
      (videoType (handleLoadVideo s) \<noteq> Youtube \<longrightarrow> videoType (handleLoadVideo s) = Direct)"
  proof (cases "extractYouTubeVideoId (inputUrl s)")
    case None
    with found have "\<not> (?marked \<or> ?bare)" by simp
    with None show ?thesis by (simp add: handleLoadVideo_def Let_def)
  next
    case (Some g)
    then have "g \<noteq> []" by (rule extractYouTubeVideoId_group)
    moreover from Some found have "?marked \<or> ?bare" by simp
    ultimately show ?thesis using Some by (simp add: handleLoadVideo_def Let_def)
  qed
  have examples:
    "videoType (handleLoadVideo
       (initial_app\<lparr>inputUrl := ''https://www.youtube.com/watch?v=abcdefghijk''\<rparr>)) = Youtube"
    "youtubeVideoId (handleLoadVideo
       (initial_app\<lparr>inputUrl := ''https://www.youtube.com/watch?v=abcdefghijk''\<rparr>)) = ''abcdefghijk''"
    "videoType (handleLoadVideo
       (initial_app\<lparr>inputUrl := ''https://cdn.example.com/clip.mp4''\<rparr>)) = Direct"
    by (simp_all add: handleLoadVideo_def initial_app_def trim_def extract_eval Let_def)
  from general examples show ?thesis by blast
qed

theorem load_selects_engine_witness:
  "trim (inputUrl (initial_app\<lparr>inputUrl := ''https://youtu.be/abcdefghijk?t=3''\<rparr>)) \<noteq> [] \<and>
   inputUrl (initial_app\<lparr>inputUrl := ''https://youtu.be/abcdefghijk?t=3''\<rparr>) =
     ''https://'' @ ''youtu.be/'' @ CHR ''a'' # ''bcdefghijk?t=3'' \<and>
   videoType (handleLoadVideo (initial_app\<lparr>inputUrl := ''https://youtu.be/abcdefghijk?t=3''\<rparr>)) = Youtube \<and>
   youtubeVideoId (handleLoadVideo (initial_app\<lparr>inputUrl := ''https://youtu.be/abcdefghijk?t=3''\<rparr>)) =
     ''abcdefghijk'' \<and>
   trim (inputUrl (initial_app\<lparr>inputUrl := ''abcdefghij-''\<rparr>)) \<noteq> [] \<and>
   length (inputUrl (initial_app\<lparr>inputUrl := ''abcdefghij-''\<rparr>)) = 11 \<and>
   videoType (handleLoadVideo (initial_app\<lparr>inputUrl := ''abcdefghij-''\<rparr>)) = Youtube \<and>
   trim (inputUrl (initial_app\<lparr>inputUrl := ''clip.mp4''\<rparr>)) \<noteq> [] \<and>
   videoType (handleLoadVideo (initial_app\<lparr>inputUrl := ''clip.mp4''\<rparr>)) = Direct"
  using load_selects_engine [of "initial_app\<lparr>inputUrl := ''https://youtu.be/abcdefghijk?t=3''\<rparr>"]
    load_selects_engine [of "initial_app\<lparr>inputUrl := ''abcdefghij-''\<rparr>"]
    load_selects_engine [of "initial_app\<lparr>inputUrl := ''clip.mp4''\<rparr>"]
  by (simp add: handleLoadVideo_def initial_app_def trim_def extract_eval Let_def)

text \<open>C9: loading a new source, by a URL that is not blank or by a file, empties the
  collection and sets the paused flag.\<close>

theorem load_resets_annotations:
  "(trim (inputUrl s) \<noteq> [] \<longrightarrow>
      annotations (handleLoadVideo s) = [] \<and> isPaused (handleLoadVideo s)) \<and>
   annotations (handleFileUpload createObjectURL (Some f) s) = [] \<and>
   isPaused (handleFileUpload createObjectURL (Some f) s)"
  by (simp add: handleLoadVideo_def handleFileUpload_def Let_def)

theorem load_resets_annotations_witness:
  "(let s = initial_app\<lparr>inputUrl := ''https://cdn.example.com/clip.mp4'', isPaused := False,
              annotations := [sample ''17'' 1, sample ''18'' 2]\<rparr>
    in trim (inputUrl s) \<noteq> [] \<and> annotations (handleLoadVideo s) = [] \<and>
       isPaused (handleLoadVideo s))"
proof -
  have t: "trim ''https://cdn.example.com/clip.mp4'' \<noteq> []"
    by (simp add: trim_def is_space_def)
  show ?thesis
    using load_resets_annotations [of "initial_app\<lparr>inputUrl := ''https://cdn.example.com/clip.mp4'',
        isPaused := False, annotations := [sample ''17'' 1, sample ''18'' 2]\<rparr>"] t
    by (simp add: Let_def initial_app_def)
qed

subsection \<open>Committing\<close>

text \<open>C1 (as stated): the id of the appended record would be unique across the
  collection. The id is the clock reading in decimal, so a commit at the reading of an
  earlier commit repeats its id.\<close>

theorem commit_id_not_fresh_counterexample:
  "isAnnotating (fst second_session) \<and> trim (annotationQuestion (snd second_session)) \<noteq> [] \<and>
   map id_ann (annotations (fst second_session)) = [''1000''] \<and>
   map id_ann (annotations (fst (handleDone 1000 second_session))) = [''1000'', ''1000''] \<and>
   \<not> distinct (map id_ann (annotations (fst (handleDone 1000 second_session))))"
  using trim_who
  by (simp add: second_session_def first_commit_def handleDone_def handleDoneAnnotation_def
      handleStartAnnotation_def initial_app_def initial_panel_def number_toString_1000)

text \<open>C1 (amended): a commit in a composing session with a question that is not blank
  appends exactly one record at the end, built from the draft fields and the current
  time, with the clock reading in decimal as its id; the collection is one longer, the
  session is idle and the paused flag is false. The id differs from the id of every
  record that was created at another clock reading, and distinct ids stay distinct when
  the new id is not in the collection.\<close>

theorem commit_appends_record:
  assumes "isAnnotating s" and "trim (annotationQuestion p) \<noteq> []"
  shows "(let s' = fst (handleDone now (s, p))
          in annotations s' = annotations s @
               [\<lparr>type = annotationType p, question = annotationQuestion p,
                 requirements = annotationRequirements p,
                 feedbackDuration = feedbackDuration_state p, timestamp = currentTime s,
                 id_ann = number_toString now\<rparr>] \<and>
             length (annotations s') = length (annotations s) + 1 \<and>
             \<not> isAnnotating s' \<and> \<not> isPaused s' \<and>
             ((\<forall>a \<in> set (annotations s). \<exists>t. id_ann a = number_toString t \<and> t \<noteq> now) \<longrightarrow>
                number_toString now \<notin> id_ann ` set (annotations s)) \<and>
             (distinct (map id_ann (annotations s)) \<and>
              number_toString now \<notin> id_ann ` set (annotations s) \<longrightarrow>
                distinct (map id_ann (annotations s'))))"
proof -
  have fresh: "(\<forall>a \<in> set (annotations s). \<exists>t. id_ann a = number_toString t \<and> t \<noteq> now) \<longrightarrow>
      number_toString now \<notin> id_ann ` set (annotations s)"
    by (metis image_iff number_toString_inj)
  from assms(2) fresh show ?thesis
    by (simp add: handleDone_def handleDoneAnnotation_def Let_def)
qed

theorem commit_appends_record_witness:
  "isAnnotating (fst second_session) \<and> trim (annotationQuestion (snd second_session)) \<noteq> [] \<and>
   map id_ann (annotations (fst second_session)) = [number_toString 1000] \<and> (1000::int) \<noteq> 1001 \<and>
   annotations (fst (handleDone 1001 second_session)) =
     [\<lparr>type = VLM, question = ''Who?'', requirements = '''', feedbackDuration = 6, timestamp = 0,
        id_ann = ''1000''\<rparr>,
      \<lparr>type = VLM, question = ''Who?'', requirements = '''', feedbackDuration = 6, timestamp = 0,
        id_ann = ''1001''\<rparr>] \<and>
   distinct (map id_ann (annotations (fst (handleDone 1001 second_session)))) \<and>
   \<not> isAnnotating (fst (handleDone 1001 second_session)) \<and>
   \<not> isPaused (fst (handleDone 1001 second_session))"
proof -
  have n: "number_toString 1001 = ''1001''" by code_simp
  have t: "\<exists>t. ''1000'' = number_toString t \<and> t \<noteq> 1001"
    using number_toString_1000 by (intro exI [of _ 1000]) simp
  show ?thesis
    using commit_appends_record [of "fst second_session" "snd second_session" 1001] trim_who t
    by (simp add: second_session_def first_commit_def handleDone_def handleDoneAnnotation_def
        handleStartAnnotation_def initial_app_def initial_panel_def number_toString_1000 n Let_def)
qed

text \<open>C3: a commit attempt in a composing session whose question is empty or only
  whitespace changes nothing: no record is appended, the collection is as before, and the
  session is still composing.\<close>

theorem blank_commit_refused:
  assumes "isAnnotating s" and "trim (annotationQuestion p) = []"
  shows "handleDone now (s, p) = (s, p) \<and>
         annotations (fst (handleDone now (s, p))) = annotations s \<and>
         isAnnotating (fst (handleDone now (s, p)))"
  using assms by (simp add: handleDone_def)

theorem blank_commit_refused_witness:
  "(let s = handleStartAnnotation initial_app;
        p = initial_panel\<lparr>annotationQuestion := ''  \<newline> ''\<rparr>
    in isAnnotating s \<and> trim (annotationQuestion p) = [] \<and> handleDone 1000 (s, p) = (s, p) \<and>
       annotations (fst (handleDone 1000 (s, p))) = [] \<and>
       isAnnotating (fst (handleDone 1000 (s, p))))"
proof -
  have t: "trim ''  \<newline> '' = []"
    by (simp add: trim_def is_space_def)
  show ?thesis
    using blank_commit_refused [of "handleStartAnnotation initial_app"
        "initial_panel\<lparr>annotationQuestion := ''  \<newline> ''\<rparr>" 1000] t
    by (simp add: Let_def initial_app_def initial_panel_def handleStartAnnotation_def)
qed

subsection \<open>Updating and editing\<close>

text \<open>C4: \<^verbatim>\<open>update(id, replacement)\<close> keeps the length of the collection, puts the fields
  of the replacement into every record with that id, which keeps its id, and leaves the
  other records as they are; it changes nothing when no record has the id. The edit
  workflow, the only caller, changes nothing either when there is no edit form or when the
  question of the form is blank after trimming; otherwise it updates with the fields of the
  form.\<close>

theorem update_replaces_fields:
  "length (annotations (handleUpdateAnnotation i r s)) = length (annotations s) \<and>
   (\<forall>k < length (annotations s).
      (id_ann (annotations s ! k) = i \<longrightarrow>
         annotations (handleUpdateAnnotation i r s) ! k =
           \<lparr>type = type r, question = question r, requirements = requirements r,
             feedbackDuration = feedbackDuration r, timestamp = timestamp r, id_ann = i\<rparr>) \<and>
      (id_ann (annotations s ! k) \<noteq> i \<longrightarrow>
         annotations (handleUpdateAnnotation i r s) ! k = annotations s ! k)) \<and>
   (i \<notin> id_ann ` set (annotations s) \<longrightarrow> handleUpdateAnnotation i r s = s) \<and>
   (editForm p = None \<longrightarrow> handleSaveEdit ann (s, p) = (s, p)) \<and>
   (\<forall>ef. editForm p = Some ef \<longrightarrow>
      (trim (question ef) = [] \<longrightarrow> handleSaveEdit ann (s, p) = (s, p)) \<and>
      (trim (question ef) \<noteq> [] \<longrightarrow>
         fst (handleSaveEdit ann (s, p)) =
           handleUpdateAnnotation (id_ann ann)
             \<lparr>type = type ef, question = question ef, requirements = requirements ef,
               feedbackDuration = feedbackDuration ef, timestamp = timestamp ann\<rparr> s))"
proof -
  have same: "i \<notin> id_ann ` set xs \<Longrightarrow>
      map (\<lambda>ann. if id_ann ann = i then with_id r i else ann) xs = xs" for xs
    by (induction xs) auto
  have a: "i \<notin> id_ann ` set (annotations s) \<longrightarrow> handleUpdateAnnotation i r s = s"
    using same [of "annotations s"] by (simp add: handleUpdateAnnotation_def)
  have b: "length (annotations (handleUpdateAnnotation i r s)) = length (annotations s)"
    by (simp add: handleUpdateAnnotation_def)
  have c: "\<forall>k < length (annotations s).
      (id_ann (annotations s ! k) = i \<longrightarrow>
         annotations (handleUpdateAnnotation i r s) ! k =
           \<lparr>type = type r, question = question r, requirements = requirements r,
             feedbackDuration = feedbackDuration r, timestamp = timestamp r, id_ann = i\<rparr>) \<and>
      (id_ann (annotations s ! k) \<noteq> i \<longrightarrow>
         annotations (handleUpdateAnnotation i r s) ! k = annotations s ! k)"
    by (simp add: handleUpdateAnnotation_def with_id_def)
  have d: "editForm p = None \<longrightarrow> handleSaveEdit ann (s, p) = (s, p)"
    by (simp add: handleSaveEdit_def)
  have e: "\<forall>ef. editForm p = Some ef \<longrightarrow>
      (trim (question ef) = [] \<longrightarrow> handleSaveEdit ann (s, p) = (s, p)) \<and>
      (trim (question ef) \<noteq> [] \<longrightarrow>
         fst (handleSaveEdit ann (s, p)) =
           handleUpdateAnnotation (id_ann ann)
             \<lparr>type = type ef, question = question ef, requirements = requirements ef,
               feedbackDuration = feedbackDuration ef, timestamp = timestamp ann\<rparr> s)"
    by (simp add: handleSaveEdit_def)
  from a b c d e show ?thesis by blast
qed

theorem update_replaces_fields_witness:
  "(let s = initial_app\<lparr>annotations := [sample ''17'' 1, sample ''18'' 2]\<rparr>;
        r = \<lparr>type = LLM, question = ''Why?'', requirements = ''short'', feedbackDuration = 3,
              timestamp = 9\<rparr>;
        blank = \<lparr>type = LLM, question = '' '', requirements = ''short'', feedbackDuration = 3\<rparr>;
        good = \<lparr>type = LLM, question = ''Why?'', requirements = ''short'', feedbackDuration = 3\<rparr>;
        p = handleEdit (sample ''18'' 2) initial_panel
    in (1::nat) < length (annotations s) \<and> id_ann (annotations s ! 1) = ''18'' \<and>
       id_ann (annotations s ! 0) \<noteq> ''18'' \<and>
       annotations (handleUpdateAnnotation ''18'' r s) =
         [sample ''17'' 1,
          \<lparr>type = LLM, question = ''Why?'', requirements = ''short'', feedbackDuration = 3,
            timestamp = 9, id_ann = ''18''\<rparr>] \<and>
       ''19'' \<notin> id_ann ` set (annotations s) \<and> handleUpdateAnnotation ''19'' r s = s \<and>
       editForm initial_panel = None \<and>
       handleSaveEdit (sample ''18'' 2) (s, initial_panel) = (s, initial_panel) \<and>
       editForm (p\<lparr>editForm := Some blank\<rparr>) = Some blank \<and> trim (question blank) = [] \<and>
       handleSaveEdit (sample ''18'' 2) (s, p\<lparr>editForm := Some blank\<rparr>) =
         (s, p\<lparr>editForm := Some blank\<rparr>) \<and>
       trim (question good) \<noteq> [] \<and>
       annotations (fst (handleSaveEdit (sample ''18'' 2) (s, p\<lparr>editForm := Some good\<rparr>))) =
         [sample ''17'' 1,
          \<lparr>type = LLM, question = ''Why?'', requirements = ''short'', feedbackDuration = 3,
            timestamp = 2, id_ann = ''18''\<rparr>])"
proof -
  have t: "trim '' '' = []" "trim ''Why?'' \<noteq> []"
    by (simp_all add: trim_def is_space_def)
  show ?thesis
    using update_replaces_fields [where i = "''18''"
        and s = "initial_app\<lparr>annotations := [sample ''17'' 1, sample ''18'' 2]\<rparr>"
        and r = "\<lparr>type = LLM, question = ''Why?'', requirements = ''short'', feedbackDuration = 3,
              timestamp = 9\<rparr>"
        and p = initial_panel and ann = "sample ''18'' 2"] t
    by (simp add: Let_def initial_app_def initial_panel_def sample_def handleUpdateAnnotation_def
        with_id_def handleSaveEdit_def handleEdit_def)
qed

text \<open>C5 (as stated): a saved edit would leave the timestamp of every record of the
  collection as it was. When another record shares the id of the edited one, it is
  overwritten too and takes the timestamp of the edited record.\<close>

theorem edit_retimes_shared_id_counterexample:
  "(2::nat) < length (annotations shared_id_state) \<and>
   map timestamp (annotations shared_id_state) = [1, 2, 3] \<and>
   map id_ann (annotations shared_id_state) = [''17'', ''18'', ''17''] \<and>
   map timestamp (annotations (fst (handleSaveEdit (annotations shared_id_state ! 2)
     (shared_id_state, shared_id_panel)))) = [3, 2, 3] \<and>
   timestamp (annotations (fst (handleSaveEdit (annotations shared_id_state ! 2)
     (shared_id_state, shared_id_panel))) ! 0) \<noteq> timestamp (annotations shared_id_state ! 0)"
  by (simp add: shared_id_state_def shared_id_panel_def initial_app_def initial_panel_def sample_def
      handleSaveEdit_def handleUpdateAnnotation_def with_id_def handleEdit_def trim_def is_space_def)

text \<open>C5 (amended): a saved edit of a record of the collection keeps the timestamp (and
  id) of that record, whatever the edit form holds, and does not touch a record with another
  id; a record that shares the id of the edited one takes the timestamp of the edited one
  when the edit is saved. When the ids are distinct every timestamp of the collection is
  as before.\<close>

theorem edit_keeps_timestamp:
  assumes "k < length (annotations s)"
  shows "(let s' = fst (handleSaveEdit (annotations s ! k) (s, p))
          in length (annotations s') = length (annotations s) \<and>
             timestamp (annotations s' ! k) = timestamp (annotations s ! k) \<and>
             id_ann (annotations s' ! k) = id_ann (annotations s ! k) \<and>
             (\<forall>j < length (annotations s).
                id_ann (annotations s ! j) \<noteq> id_ann (annotations s ! k) \<longrightarrow>
                annotations s' ! j = annotations s ! j) \<and>
             (\<forall>j < length (annotations s).
                id_ann (annotations s ! j) = id_ann (annotations s ! k) \<longrightarrow>
                (case editForm p of
                   None \<Rightarrow> annotations s' ! j = annotations s ! j
                 | Some ef \<Rightarrow>
                     if trim (question ef) = [] then annotations s' ! j = annotations s ! j
                     else timestamp (annotations s' ! j) = timestamp (annotations s ! k))) \<and>
             (distinct (map id_ann (annotations s)) \<longrightarrow>
                map timestamp (annotations s') = map timestamp (annotations s)))"
proof (cases "editForm p")
  case None
  then show ?thesis by (simp add: handleSaveEdit_def)
next
  case (Some ef)
  show ?thesis
  proof (cases "trim (question ef) = []")
    case True
    with Some show ?thesis by (simp add: handleSaveEdit_def)
  next
    case False
    have d: "distinct (map id_ann (annotations s)) \<Longrightarrow> x \<in> set (annotations s) \<Longrightarrow>
        id_ann x = id_ann (annotations s ! k) \<Longrightarrow> timestamp (annotations s ! k) = timestamp x" for x
      using same_id_same_record [OF _ assms, of x] by simp
    let ?f = "\<lambda>ann. if id_ann ann = id_ann (annotations s ! k)
        then with_id \<lparr>type = type ef, question = question ef, requirements = requirements ef,
               feedbackDuration = feedbackDuration ef, timestamp = timestamp (annotations s ! k)\<rparr>
               (id_ann (annotations s ! k))
        else ann"
    have s': "annotations (fst (handleSaveEdit (annotations s ! k) (s, p))) = map ?f (annotations s)"
      using Some False by (simp add: handleSaveEdit_def handleUpdateAnnotation_def)
    have stamp: "timestamp (?f x) = timestamp x"
      if "distinct (map id_ann (annotations s))" and "x \<in> set (annotations s)" for x
      using d [OF that] by (simp add: with_id_def)
    have all: "distinct (map id_ann (annotations s)) \<longrightarrow>
        map timestamp (map ?f (annotations s)) = map timestamp (annotations s)"
    proof
      assume dist: "distinct (map id_ann (annotations s))"
      have "map timestamp (map ?f (annotations s)) = map (\<lambda>x. timestamp (?f x)) (annotations s)"
        by (simp add: comp_def)
      also have "\<dots> = map timestamp (annotations s)"
        by (rule map_cong [OF refl]) (rule stamp [OF dist])
      finally show "map timestamp (map ?f (annotations s)) = map timestamp (annotations s)" .
    qed
    have same: "\<forall>j < length (annotations s).
        id_ann (annotations s ! j) = id_ann (annotations s ! k) \<longrightarrow>
        timestamp (map ?f (annotations s) ! j) = timestamp (annotations s ! k)"
      by (simp add: with_id_def)
    have other: "\<forall>j < length (annotations s).
        id_ann (annotations s ! j) \<noteq> id_ann (annotations s ! k) \<longrightarrow>
        map ?f (annotations s) ! j = annotations s ! j"
      by simp
    have self: "timestamp (map ?f (annotations s) ! k) = timestamp (annotations s ! k)"
        "id_ann (map ?f (annotations s) ! k) = id_ann (annotations s ! k)"
      using assms by (simp_all add: with_id_def)
    show ?thesis
      unfolding Let_def s' using Some False all same other self by simp
  qed
qed

theorem edit_keeps_timestamp_witness:
  "(1::nat) < length (annotations (initial_app\<lparr>annotations := [sample ''17'' 1, sample ''18'' 2]\<rparr>)) \<and>
   distinct (map id_ann (annotations (initial_app\<lparr>annotations := [sample ''17'' 1, sample ''18'' 2]\<rparr>))) \<and>
   annotations (fst (handleSaveEdit (sample ''18'' 2)
     (initial_app\<lparr>annotations := [sample ''17'' 1, sample ''18'' 2]\<rparr>,
      (handleEdit (sample ''18'' 2) initial_panel)\<lparr>editForm :=
         Some \<lparr>type = LLM, question = ''Why?'', requirements = ''short'', feedbackDuration = 3\<rparr>\<rparr>))) =
     [sample ''17'' 1,
      \<lparr>type = LLM, question = ''Why?'', requirements = ''short'', feedbackDuration = 3,
        timestamp = 2, id_ann = ''18''\<rparr>] \<and>
   (2::nat) < length (annotations shared_id_state) \<and>
   id_ann (annotations shared_id_state ! 0) = id_ann (annotations shared_id_state ! 2) \<and>
   map timestamp (annotations (fst (handleSaveEdit (annotations shared_id_state ! 2)
     (shared_id_state, shared_id_panel)))) = [3, 2, 3]"
proof -
  have t: "trim ''Why?'' \<noteq> []"
    by (simp add: trim_def is_space_def)
  show ?thesis
    using edit_keeps_timestamp [of 1 "initial_app\<lparr>annotations := [sample ''17'' 1, sample ''18'' 2]\<rparr>"
        "(handleEdit (sample ''18'' 2) initial_panel)\<lparr>editForm :=
           Some \<lparr>type = LLM, question = ''Why?'', requirements = ''short'', feedbackDuration = 3\<rparr>\<rparr>"]
      edit_keeps_timestamp [of 2 shared_id_state shared_id_panel] t
    by (simp add: Let_def initial_app_def initial_panel_def sample_def handleUpdateAnnotation_def
        with_id_def handleSaveEdit_def handleEdit_def shared_id_state_def shared_id_panel_def)
qed

subsection \<open>Exporting\<close>

text \<open>C6: the export document counts the records of the collection in
  \<^verbatim>\<open>totalAnnotations\<close> and lists, in the order of the collection, one object for each
  record, with the record's five other fields and no field \<^verbatim>\<open>id\<close>; the state is not
  changed.\<close>

theorem export_is_projection:
  "fst (handleGenerateJSON now s) = s \<and>
   (\<exists>records.
      content (snd (handleGenerateJSON now s)) =
        JObject [(''videoUrl'', JString (videoUrl s)),
          (''totalAnnotations'', JNumber (real (length (annotations s)))),
          (''annotations'', JArray records)] \<and>
      length records = length (annotations s) \<and>
      (\<forall>k < length (annotations s).
         \<exists>fields. records ! k = JObject fields \<and> ''id'' \<notin> fst ` set fields \<and>
           fields =
             [(''timestamp'', JNumber (timestamp (annotations s ! k))),
              (''type'', JString (case type (annotations s ! k) of VLM \<Rightarrow> ''VLM'' | LLM \<Rightarrow> ''LLM'')),
              (''question'', JString (question (annotations s ! k))),
              (''requirements'', JString (requirements (annotations s ! k))),
              (''feedbackDuration'', JNumber (feedbackDuration (annotations s ! k)))]))"
  by (simp add: handleGenerateJSON_def jsonData_def rest_of_def type_name_def)

theorem export_is_projection_witness:
  "(let s = initial_app\<lparr>videoUrl := ''clip.mp4'', annotations := [sample ''17'' 1, sample ''18'' 2]\<rparr>
    in (0::nat) < length (annotations s) \<and> fst (handleGenerateJSON 1000 s) = s \<and>
       content (snd (handleGenerateJSON 1000 s)) =
         JObject [(''videoUrl'', JString ''clip.mp4''), (''totalAnnotations'', JNumber 2),
           (''annotations'', JArray [
              JObject [(''timestamp'', JNumber 1), (''type'', JString ''VLM''),
                (''question'', JString ''What color is the car?''), (''requirements'', JString ''''),
                (''feedbackDuration'', JNumber 6)],
              JObject [(''timestamp'', JNumber 2), (''type'', JString ''VLM''),
                (''question'', JString ''What color is the car?''), (''requirements'', JString ''''),
                (''feedbackDuration'', JNumber 6)]])])"
  using export_is_projection [of 1000
      "initial_app\<lparr>videoUrl := ''clip.mp4'', annotations := [sample ''17'' 1, sample ''18'' 2]\<rparr>"]
  by (simp add: Let_def handleGenerateJSON_def jsonData_def rest_of_def type_name_def sample_def
      initial_app_def)

subsection \<open>Subtitles\<close>

text \<open>C7: the conversion puts the header \<^verbatim>\<open>WEBVTT\<close> and an empty line before the input
  and keeps the input's length; a character of the input is either copied, or it is the
  comma of a time \<^verbatim>\<open>dd:dd:dd,ddd\<close> and becomes a period. Every time in the input that no
  earlier time overlaps has its comma rewritten. The example of the specification converts
  as it says.\<close>

theorem srt_to_vtt_rewrites_delimiters:
  "take 8 (convertSrtToVtt srt) = ''WEBVTT\<newline>\<newline>'' \<and>
   length (convertSrtToVtt srt) = 8 + length srt \<and>
   (\<forall>i < length srt.
      convertSrtToVtt srt ! (8 + i) = srt ! i \<or>
      (srt ! i = CHR '','' \<and> convertSrtToVtt srt ! (8 + i) = CHR ''.'' \<and> 8 \<le> i \<and>
       matches_at srt_time (drop (i - 8) srt))) \<and>
   (matches_at srt_time (drop k srt) \<and>
    (\<forall>j < k. matches_at srt_time (drop j srt) \<longrightarrow> j + 12 \<le> k) \<longrightarrow>
      srt ! (k + 8) = CHR '','' \<and> convertSrtToVtt srt ! (8 + (k + 8)) = CHR ''.'') \<and>
   convertSrtToVtt ''1\<newline>00:00:01,000 --> 00:00:02,500\<newline>Hello\<newline>'' =
     ''WEBVTT\<newline>\<newline>1\<newline>00:00:01.000 --> 00:00:02.500\<newline>Hello\<newline>''"
proof -
  have nth: "convertSrtToVtt srt ! (8 + n) = replace_times srt ! n" for n
    unfolding convertSrtToVtt_def by (simp add: nth_append)
  have a: "take 8 (convertSrtToVtt srt) = ''WEBVTT\<newline>\<newline>''"
    by (simp add: convertSrtToVtt_def)
  have b: "length (convertSrtToVtt srt) = 8 + length srt"
    by (simp add: convertSrtToVtt_def length_replace_times)
  have c: "\<forall>i < length srt.
      convertSrtToVtt srt ! (8 + i) = srt ! i \<or>
      (srt ! i = CHR '','' \<and> convertSrtToVtt srt ! (8 + i) = CHR ''.'' \<and> 8 \<le> i \<and>
       matches_at srt_time (drop (i - 8) srt))"
    unfolding nth using replace_times_changes [of _ srt] by blast
  have comma: "srt ! (k + 8) = CHR '',''" if "matches_at srt_time (drop k srt)"
  proof -
    from that obtain pre mid post where sh: "drop k srt = pre @ CHR '','' # mid @ post"
      "length pre = 8" using matches_srt_time_shape by blast
    then have "drop k srt ! 8 = CHR '',''" by (simp add: nth_append)
    moreover from sh have "length (drop k srt) = 8 + Suc (length mid + length post)" by simp
    then have "k + 8 < length srt" by simp
    ultimately show ?thesis by simp
  qed
  have d: "matches_at srt_time (drop k srt) \<and>
    (\<forall>j < k. matches_at srt_time (drop j srt) \<longrightarrow> j + 12 \<le> k) \<longrightarrow>
      srt ! (k + 8) = CHR '','' \<and> convertSrtToVtt srt ! (8 + (k + 8)) = CHR ''.''"
    unfolding nth using replace_times_disjoint [of k srt] comma by blast
  have e: "convertSrtToVtt ''1\<newline>00:00:01,000 --> 00:00:02,500\<newline>Hello\<newline>'' =
     ''WEBVTT\<newline>\<newline>1\<newline>00:00:01.000 --> 00:00:02.500\<newline>Hello\<newline>''"
    by (simp add: convertSrtToVtt_def srt_time_def is_digit_def)
  from a b c d e show ?thesis by blast
qed

theorem srt_to_vtt_rewrites_delimiters_witness:
  "matches_at srt_time (drop 2 ''1\<newline>00:00:01,000 --> 00:00:02,500\<newline>Hello\<newline>'') \<and>
   matches_at srt_time (drop 19 ''1\<newline>00:00:01,000 --> 00:00:02,500\<newline>Hello\<newline>'') \<and>
   (2::nat) + 12 \<le> 19 \<and>
   (27::nat) < length ''1\<newline>00:00:01,000 --> 00:00:02,500\<newline>Hello\<newline>'' \<and>
   ''1\<newline>00:00:01,000 --> 00:00:02,500\<newline>Hello\<newline>'' ! 27 = CHR '','' \<and>
   convertSrtToVtt ''1\<newline>00:00:01,000 --> 00:00:02,500\<newline>Hello\<newline>'' ! 35 = CHR ''.'' \<and>
   ''1\<newline>00:00:01,000 --> 00:00:02,500\<newline>Hello\<newline>'' ! 10 = CHR '','' \<and>
   convertSrtToVtt ''1\<newline>00:00:01,000 --> 00:00:02,500\<newline>Hello\<newline>'' ! 18 = CHR ''.'' \<and>
   convertSrtToVtt ''1\<newline>00:00:01,000 --> 00:00:02,500\<newline>Hello\<newline>'' ! 12 = CHR '':''"
proof -
  let ?ex = "''1\<newline>00:00:01,000 --> 00:00:02,500\<newline>Hello\<newline>''"
  have m: "matches_at srt_time (drop 19 ?ex)"
    by (simp add: srt_time_def is_digit_def)
  from srt_to_vtt_rewrites_delimiters [of ?ex 19]
  have "matches_at srt_time (drop 19 ?ex) \<and>
      (\<forall>j < 19. matches_at srt_time (drop j ?ex) \<longrightarrow> j + 12 \<le> 19) \<longrightarrow>
      ?ex ! (19 + 8) = CHR '','' \<and> convertSrtToVtt ?ex ! (8 + (19 + 8)) = CHR ''.''"
    by blast
  with m example_earlier_matches
  have "convertSrtToVtt ?ex ! (8 + (19 + 8)) = CHR ''.''" by blast
  then show ?thesis
    by (simp add: srt_time_def is_digit_def convertSrtToVtt_def)
qed

end
